theory Spec2Isabelle
  imports Main "HOL-Library.Sublist"
begin

section \<open>A shallow embedding of server.cpp\<close>

text \<open>
  The request handling of the server (parseBetween down to defaultContentType, and the
  body of handleClient) as HOL functions. A \<^verbatim>\<open>std::string\<close> is a \<^typ>\<open>string\<close>, a
  \<^verbatim>\<open>std::size_t\<close> is a natural number below \<open>2 ^ 64\<close> with the wrap-around written
  out, an \<^verbatim>\<open>int\<close> is an integer in the 32-bit two's complement range. The exception
  \<^verbatim>\<open>std::out_of_range\<close> of \<^verbatim>\<open>substr\<close> (which no function of the source catches, so
  that it ends the process) is the value \<open>Inl OutOfRange\<close>.
\<close>

subsection \<open>Sizes, integers and faults\<close>

datatype fault =
    OutOfRange    \<comment> \<open>\<^verbatim>\<open>std::out_of_range\<close> thrown by \<^verbatim>\<open>substr\<close>\<close>
  | Unterminated  \<comment> \<open>a C string read from a buffer that holds no NUL byte\<close>

definition npos :: nat where
  "npos = 2 ^ 64 - 1"

definition size_add :: "nat \<Rightarrow> nat \<Rightarrow> nat" where
  "size_add a b = (a + b) mod 2 ^ 64"

definition size_sub :: "nat \<Rightarrow> nat \<Rightarrow> nat" where
  "size_sub a b = (a + 2 ^ 64 - b mod 2 ^ 64) mod 2 ^ 64"

definition to_int :: "nat \<Rightarrow> int" where
  \<comment> \<open>conversion of a \<^verbatim>\<open>size_t\<close> to \<^verbatim>\<open>int\<close>: the low 32 bits, read as signed\<close>
  "to_int n = (int n + 2 ^ 31) mod 2 ^ 32 - 2 ^ 31"

definition to_size_t :: "int \<Rightarrow> nat" where
  \<comment> \<open>conversion of an \<^verbatim>\<open>int\<close> to \<^verbatim>\<open>size_t\<close>\<close>
  "to_size_t i = nat (i mod 2 ^ 64)"

subsection \<open>The operations of std::string that the source uses\<close>

definition CR :: char where
  "CR = CHR 0x0D"

definition LF :: char where
  "LF = CHR 0x0A"

definition NUL :: char where
  "NUL = CHR 0x00"

fun search :: "string \<Rightarrow> string \<Rightarrow> nat option" where
  "search [] m = (if m = [] then Some 0 else None)"
| "search (c # cs) m =
     (if prefix m (c # cs) then Some 0 else map_option Suc (search cs m))"

definition find_str :: "string \<Rightarrow> string \<Rightarrow> nat" where
  \<comment> \<open>\<^verbatim>\<open>s.find(m)\<close>: the first position where \<open>m\<close> starts, \<open>npos\<close> when there is none\<close>
  "find_str s m = (case search s m of None \<Rightarrow> npos | Some p \<Rightarrow> p)"

definition find_first_of :: "string \<Rightarrow> char \<Rightarrow> nat" where
  "find_first_of s c =
     (if c \<in> set s then length (takeWhile (\<lambda>x. x \<noteq> c) s) else npos)"

definition find_last_of :: "string \<Rightarrow> char \<Rightarrow> nat" where
  "find_last_of s c =
     (if c \<in> set s then length s - 1 - length (takeWhile (\<lambda>x. x \<noteq> c) (rev s)) else npos)"

definition substr :: "string \<Rightarrow> nat \<Rightarrow> nat \<Rightarrow> fault + string" where
  \<comment> \<open>\<^verbatim>\<open>s.substr(pos, n)\<close> throws when \<open>pos > s.size()\<close>\<close>
  "substr s pos n = (if pos > length s then Inl OutOfRange else Inr (take n (drop pos s)))"

definition digit :: "nat \<Rightarrow> char" where
  "digit d = ''0123456789'' ! d"

fun to_string :: "nat \<Rightarrow> string" where
  "to_string n = (if n < 10 then [digit n] else to_string (n div 10) @ [digit (n mod 10)])"

declare to_string.simps [simp del]

subsection \<open>Constants\<close>

definition CRLF :: string where
  "CRLF = [CR, LF]"

definition HTTP200 :: string where
  "HTTP200 = ''HTTP/1.1 200 OK'' @ CRLF"

definition HTTP201 :: string where
  "HTTP201 = ''HTTP/1.1 201 Created'' @ CRLF"

definition HTTP400 :: string where
  "HTTP400 = ''HTTP/1.1 400 Bad Request'' @ CRLF"

definition HTTP404 :: string where
  "HTTP404 = ''HTTP/1.1 404 Not Found'' @ CRLF"

definition HTTP414 :: string where
  "HTTP414 = ''HTTP/1.1 414 URI Too Long'' @ CRLF"

definition HTTP500 :: string where
  "HTTP500 = ''HTTP/1.1 500 Internal Server Error'' @ CRLF"

definition HTTP501 :: string where
  "HTTP501 = ''HTTP/1.1 501 Not Implemented'' @ CRLF"

subsection \<open>The request parser\<close>

definition parseBetween :: "string \<Rightarrow> string \<Rightarrow> string \<Rightarrow> fault + string" where
  "parseBetween s firstMarker secondMarker =
     (let i = to_int (length firstMarker);
          pos = find_str s firstMarker;
          start = size_add pos (to_size_t i)
      in case substr s start npos of
           Inl e \<Rightarrow> Inl e
         | Inr suffix' \<Rightarrow>
             (let pos2 = find_str suffix' secondMarker in substr s start pos2))"

definition parseFromThisToEnd :: "string \<Rightarrow> string \<Rightarrow> fault + string" where
  "parseFromThisToEnd s firstMarker =
     (let i = to_int (length firstMarker);
          pos = find_str s firstMarker
      in substr s (size_add pos (to_size_t i)) (length s))"

definition getPath :: "string \<Rightarrow> fault + string" where
  "getPath requestContents = parseBetween requestContents '' /'' '' ''"

definition getMethod :: "string \<Rightarrow> fault + string" where
  "getMethod requestContents = parseBetween requestContents '''' '' ''"

subsection \<open>Canned responses\<close>

definition formulateEchoResponse :: "string \<Rightarrow> fault + string" where
  "formulateEchoResponse path =
     (case substr (''/'' @ path) 6 npos of
        Inl e \<Rightarrow> Inl e
      | Inr body \<Rightarrow>
          Inr (HTTP200 @ ''Content-Type: text/plain'' @ CRLF @ ''Content-Length: ''
               @ to_string (length body) @ CRLF @ CRLF @ body))"

definition formulateUserAgentResponse :: "string \<Rightarrow> fault + string" where
  "formulateUserAgentResponse requestContents =
     (case parseBetween requestContents (CRLF @ ''User-Agent: '') CRLF of
        Inl e \<Rightarrow> Inl e
      | Inr body \<Rightarrow>
          Inr (HTTP200 @ ''Content-Type: text/plain'' @ CRLF @ ''Content-Length: ''
               @ to_string (length body) @ CRLF @ CRLF @ body))"

subsection \<open>Content types\<close>

definition getFileExtension :: "string \<Rightarrow> fault + string" where
  "getFileExtension validPath =
     (let found = find_last_of validPath (CHR ''/'')
      in case substr validPath (size_add found 1) npos of
           Inl e \<Rightarrow> Inl e
         | Inr file \<Rightarrow>
             (let found2 = find_last_of file (CHR ''.'')
              in if found2 = to_size_t (- 1) then Inr ''''
                 else substr file (size_add found2 1) npos))"

definition defaultContentType :: "string \<Rightarrow> string" where
  "defaultContentType fileExtension =
     (if fileExtension = ''bmp'' then ''image/bmp''
      else if fileExtension = ''css'' then ''text/css''
      else if fileExtension = ''csv'' then ''text/csv''
      else if fileExtension = ''gif'' then ''image/gif''
      else if fileExtension = ''htm'' \<or> fileExtension = ''html'' then ''text/html''
      else if fileExtension = ''ico'' then ''image/vnd.microsoft.icon''
      else if fileExtension = ''jpg'' \<or> fileExtension = ''jpeg'' then ''image/jpeg''
      else if fileExtension = ''js'' then ''text/javascript''
      else if fileExtension = ''json'' then ''application/json''
      else if fileExtension = ''png'' then ''image/png''
      else if fileExtension = ''pdf'' then ''application/pdf''
      else if fileExtension = ''php'' then ''application/x-httpd-php''
      else if fileExtension = ''svg'' then ''image/svg+xml''
      else if fileExtension = ''tif'' \<or> fileExtension = ''tiff'' then ''image/tiff''
      else if fileExtension = ''txt'' then ''text/plain''
      else ''application/octet-stream'')"

subsection \<open>Files\<close>

text \<open>
  The file system is the environment of the server. \<open>files\<close> gives, for every path on
  which an input stream opens, the bytes that are read from it: the bytes of a file, and
  none for a directory, which opens too. \<open>creatable\<close> says whether an output stream on a
  path opens (so that the file is created or truncated) once the server has called
  \<^verbatim>\<open>mkdir\<close> on its directory; the source ignores what \<^verbatim>\<open>mkdir\<close> returns. No stream
  opens on a path of \<open>PATH_MAX\<close> bytes or more.
\<close>

record filesystem =
  files :: "string \<rightharpoonup> string"
  creatable :: "string \<Rightarrow> bool"

definition PATH_MAX :: nat where
  "PATH_MAX = 4096"

definition ifstream_open :: "filesystem \<Rightarrow> string \<Rightarrow> string option" where
  "ifstream_open fs path = (if PATH_MAX \<le> length path then None else files fs path)"

definition ofstream_open :: "filesystem \<Rightarrow> string \<Rightarrow> bool" where
  "ofstream_open fs path = (length path < PATH_MAX \<and> creatable fs path)"

definition write_file :: "filesystem \<Rightarrow> string \<Rightarrow> string \<Rightarrow> filesystem" where
  "write_file fs path bytes = fs\<lparr>files := (files fs)(path \<mapsto> bytes)\<rparr>"

definition isValidFilePath :: "filesystem \<Rightarrow> string \<Rightarrow> bool" where
  "isValidFilePath fs path =
     (let index = to_int (find_first_of path (CHR ''/''))
      in if to_size_t index > length path then False
         else (case ifstream_open fs path of None \<Rightarrow> False | Some bytes \<Rightarrow> True))"

definition getline :: "string \<Rightarrow> string \<times> string \<times> bool" where
  \<comment> \<open>\<^verbatim>\<open>std::getline\<close> on a stream that is good: the line read, what is left of the
      stream, and whether the stream is still good (it is not once the end was reached)\<close>
  "getline inp =
     (case dropWhile (\<lambda>c. c \<noteq> LF) inp of
        [] \<Rightarrow> (takeWhile (\<lambda>c. c \<noteq> LF) inp, [], False)
      | c # rest \<Rightarrow> (takeWhile (\<lambda>c. c \<noteq> LF) inp, rest, True))"

function read_lines :: "bool \<Rightarrow> string \<Rightarrow> string \<Rightarrow> string" where
  "read_lines good inp contents =
     (if good
      then (case getline inp of
              (line, rest, good') \<Rightarrow> read_lines good' rest (contents @ line @ [LF]))
      else contents)"
  by pat_completeness auto
termination
proof (relation "measure (\<lambda>(good, inp, contents). if good then Suc (length inp) else 0)")
  show "wf (measure (\<lambda>(good, inp, contents). if good then Suc (length inp) else 0))"
    by simp
next
  fix good :: bool and inp contents :: string and line y rest good'
  assume "good" and "(line, y) = getline inp" and "(rest, good') = y"
  then have g: "getline inp = (line, rest, good')"
    by simp
  have "length rest < length inp" if still_good: "good'"
  proof -
    obtain c where "dropWhile (\<lambda>c. c \<noteq> LF) inp = c # rest"
      using g still_good by (auto simp: getline_def split: list.splits)
    then have "Suc (length rest) = length (dropWhile (\<lambda>c. c \<noteq> LF) inp)"
      by simp
    also have "\<dots> \<le> length inp"
      by (rule length_dropWhile_le)
    finally show ?thesis
      by simp
  qed
  then show "((good', rest, contents @ line @ [LF]), (good, inp, contents))
      \<in> measure (\<lambda>(good, inp, contents). if good then Suc (length inp) else 0)"
    using \<open>good\<close> by auto
qed

declare read_lines.simps [simp del]

definition fetchFileContents :: "filesystem \<Rightarrow> string \<Rightarrow> string \<Rightarrow> fault + string" where
  "fetchFileContents fs path contentType =
     (let contents = (case ifstream_open fs path of
                        None \<Rightarrow> read_lines False [] []
                      | Some bytes \<Rightarrow> read_lines True bytes [])
      in case substr contents 0 (size_sub (length contents) 1) of
           Inl e \<Rightarrow> Inl e
         | Inr contents' \<Rightarrow>
             Inr (HTTP200 @ ''Content-Type: '' @ contentType @ CRLF @ ''Content-Length: ''
                  @ to_string (length contents') @ CRLF @ CRLF @ contents'))"

definition codeCraftersGetFile :: "filesystem \<Rightarrow> string \<Rightarrow> string \<Rightarrow> fault + string" where
  "codeCraftersGetFile fs path directory =
     (case substr path 6 (length path) of
        Inl e \<Rightarrow> Inl e
      | Inr name \<Rightarrow>
          (let actualPath = directory @ name
           in if \<not> isValidFilePath fs actualPath then Inr (HTTP404 @ CRLF)
              else fetchFileContents fs actualPath ''application/octet-stream''))"

definition storeFile ::
  "filesystem \<Rightarrow> string \<Rightarrow> string \<Rightarrow> string \<Rightarrow> fault + (bool \<times> filesystem)" where
  "storeFile fs path directory requestContents =
     (case substr path 6 (length path) of
        Inl e \<Rightarrow> Inl e
      | Inr name \<Rightarrow>
          (let path' = (if directory = '''' then directory @ name
                        else directory @ ''/'' @ name)
           in if \<not> ofstream_open fs path' then Inr (False, fs)
              else (case parseFromThisToEnd requestContents (CRLF @ CRLF) of
                      Inl e \<Rightarrow> Inl e
                    | Inr body \<Rightarrow> Inr (True, write_file fs path' body))))"

subsection \<open>The connection handler\<close>

text \<open>
  \<open>prepareResponse\<close> is step 8 of handleClient: from the request text, and the response
  that is already set when the receive check fired, to the response that is sent.
\<close>

definition prepareResponse ::
  "filesystem \<Rightarrow> string \<Rightarrow> string \<Rightarrow> string \<Rightarrow> fault + (string \<times> filesystem)" where
  "prepareResponse fs directory response requestContents =
     (case getPath requestContents of
        Inl e \<Rightarrow> Inl e
      | Inr path \<Rightarrow>
     (case getMethod requestContents of
        Inl e \<Rightarrow> Inl e
      | Inr method \<Rightarrow>
          if response \<noteq> '''' then Inr (response, fs)
          else if method = ''GET'' then
            (if path = '''' then Inr (HTTP200 @ CRLF, fs)
             else if take 5 path = ''echo/'' then
               map_sum id (\<lambda>r. (r, fs)) (formulateEchoResponse path)
             else if take 10 path = ''user-agent'' then
               map_sum id (\<lambda>r. (r, fs)) (formulateUserAgentResponse requestContents)
             else if take 6 path = ''files/'' then
               map_sum id (\<lambda>r. (r, fs)) (codeCraftersGetFile fs path directory)
             else if isValidFilePath fs path then
               (case getFileExtension path of
                  Inl e \<Rightarrow> Inl e
                | Inr ext \<Rightarrow>
                    map_sum id (\<lambda>r. (r, fs)) (fetchFileContents fs path (defaultContentType ext)))
             else Inr (HTTP404 @ CRLF, fs))
          else if method = ''POST'' then
            (if take 6 path = ''files/'' then
               (case storeFile fs path directory requestContents of
                  Inl e \<Rightarrow> Inl e
                | Inr (stored, fs') \<Rightarrow>
                    if \<not> stored then Inr (HTTP500 @ CRLF, fs')
                    else Inr (HTTP201 @ CRLF, fs'))
             else Inr (HTTP501 @ CRLF, fs))
          else Inr (response, fs)))"

definition buffer_size :: nat where
  "buffer_size = 1024"

definition recv :: "string \<Rightarrow> nat \<Rightarrow> int \<times> string" where
  \<comment> \<open>a receive that succeeds, on a buffer of \<open>len\<close> zero bytes: as many of the bytes
      that have arrived as fit, and their number\<close>
  "recv arrived len =
     (int (min (length arrived) len), take len arrived @ replicate (len - length arrived) NUL)"

definition c_str :: "string \<Rightarrow> fault + string" where
  \<comment> \<open>the C string that starts the buffer: the bytes before the first NUL\<close>
  "c_str buffer =
     (if NUL \<in> set buffer then Inr (takeWhile (\<lambda>c. c \<noteq> NUL) buffer) else Inl Unterminated)"

datatype outcome =
    Closed        \<comment> \<open>the connection is closed and nothing is sent\<close>
  | Sent string   \<comment> \<open>the bytes handed to \<^verbatim>\<open>send\<close>, then the connection is closed\<close>

definition handleClient ::
  "filesystem \<Rightarrow> string \<Rightarrow> int \<Rightarrow> string \<Rightarrow> fault + (outcome \<times> filesystem)" where
  "handleClient fs directory bytes_received buffer =
     (if bytes_received < 0 then Inr (Closed, fs)
      else
        (let response = (if to_size_t bytes_received > buffer_size then HTTP414 @ CRLF else '''')
         in case c_str buffer of
              Inl e \<Rightarrow> Inl e
            | Inr requestContents \<Rightarrow>
                (case prepareResponse fs directory response requestContents of
                   Inl e \<Rightarrow> Inl e
                 | Inr (sent, fs') \<Rightarrow> Inr (Sent sent, fs'))))"

subsection \<open>The content-type rule as the specification words it\<close>

definition last_segment_spec :: "string \<Rightarrow> string" where
  "last_segment_spec path = rev (takeWhile (\<lambda>c. c \<noteq> CHR ''/'') (rev path))"

definition extension_spec :: "string \<Rightarrow> string" where
  "extension_spec path =
     (let segment = last_segment_spec path
      in if CHR ''.'' \<in> set segment
         then rev (takeWhile (\<lambda>c. c \<noteq> CHR ''.'') (rev segment)) else '''')"

definition content_type_table :: "(string \<times> string) list" where
  "content_type_table =
     [(''bmp'', ''image/bmp''), (''css'', ''text/css''), (''csv'', ''text/csv''),
      (''gif'', ''image/gif''), (''htm'', ''text/html''), (''html'', ''text/html''),
      (''ico'', ''image/vnd.microsoft.icon''), (''jpg'', ''image/jpeg''),
      (''jpeg'', ''image/jpeg''), (''js'', ''text/javascript''),
      (''json'', ''application/json''), (''png'', ''image/png''),
      (''pdf'', ''application/pdf''), (''php'', ''application/x-httpd-php''),
      (''svg'', ''image/svg+xml''), (''tif'', ''image/tiff''), (''tiff'', ''image/tiff''),
      (''txt'', ''text/plain'')]"

definition content_type_spec :: "string \<Rightarrow> string" where
  "content_type_spec ext =
     (case map_of content_type_table ext of
        None \<Rightarrow> ''application/octet-stream''
      | Some t \<Rightarrow> t)"

subsection \<open>Sample environments and requests\<close>

definition empty_disk :: filesystem where
  \<comment> \<open>no file yet, every destination can be created\<close>
  "empty_disk = \<lparr>files = Map.empty, creatable = (\<lambda>path. True)\<rparr>"

definition echo_request :: string where
  "echo_request = ''GET /echo/abc HTTP/1.1'' @ CRLF @ CRLF"

definition head_request :: string where
  "head_request = ''HEAD / HTTP/1.1'' @ CRLF @ CRLF"

definition oversized_request :: string where
  \<comment> \<open>1131 bytes, none of them zero\<close>
  "oversized_request =
     ''GET / HTTP/1.1'' @ CRLF @ ''X-Padding: '' @ replicate 1100 (CHR ''a'') @ CRLF @ CRLF"

definition user_agent_request :: string where
  \<comment> \<open>a request for \<open>/user-agent\<close> that carries no User-Agent header\<close>
  "user_agent_request = ''GET /user-agent HTTP/1.1'' @ CRLF @ ''Host: localhost'' @ CRLF @ CRLF"

definition unfinished_post :: string where
  \<comment> \<open>a POST whose headers are not closed by a blank line\<close>
  "unfinished_post = ''POST /files/test.txt HTTP/1.1'' @ CRLF @ ''Content-Length: 5'' @ CRLF"

definition notes_disk :: filesystem where
  \<comment> \<open>the directory \<open>/tmp/d\<close> with one file in it, of three bytes, the last one a
      newline\<close>
  "notes_disk =
     \<lparr>files = [''/tmp/d'' \<mapsto> '''', ''/tmp/d/'' \<mapsto> '''',
               ''/tmp/d/notes.txt'' \<mapsto> ''hi'' @ [LF]],
      creatable = (\<lambda>path. True)\<rparr>"

definition notes_request :: string where
  "notes_request = ''GET /files/notes.txt HTTP/1.1'' @ CRLF @ CRLF"

definition stray_disk :: filesystem where
  \<comment> \<open>the directory \<open>/tmp/d\<close> with no file in it, and beside it the file
      \<open>/tmp/dsecret.txt\<close>\<close>
  "stray_disk =
     \<lparr>files = [''/tmp/d'' \<mapsto> '''', ''/tmp/d/'' \<mapsto> '''',
               ''/tmp/dsecret.txt'' \<mapsto> ''classified''],
      creatable = (\<lambda>path. True)\<rparr>"

definition secret_request :: string where
  "secret_request = ''GET /files/secret.txt HTTP/1.1'' @ CRLF @ CRLF"

definition store_request :: string where
  "store_request = ''POST /files/test.txt HTTP/1.1'' @ CRLF @ CRLF @ ''hello''"

definition fetch_request :: string where
  "fetch_request = ''GET /files/test.txt HTTP/1.1'' @ CRLF @ CRLF"

section \<open>Sizes and searches\<close>

lemma to_size_t_minus_one: "to_size_t (- 1) = npos"
  by (simp add: to_size_t_def npos_def)

lemma size_add_npos_one: "size_add npos 1 = 0"
  by (simp add: size_add_def npos_def)

lemma take_npos:
  assumes "length s < 2 ^ 64"
  shows "take npos s = s"
  using assms by (simp add: npos_def)

lemma takeWhile_rev_shorter:
  assumes "c \<in> set s"
  shows "length (takeWhile (\<lambda>x. x \<noteq> c) (rev s)) < length s"
proof -
  have "takeWhile (\<lambda>x. x \<noteq> c) (rev s) \<noteq> rev s"
    using assms by auto
  moreover have "length (takeWhile (\<lambda>x. x \<noteq> c) (rev s)) \<le> length (rev s)"
    by (rule length_takeWhile_le)
  ultimately show ?thesis
    by (metis length_rev nat_less_le takeWhile_eq_take take_all)
qed

lemma drop_to_last:
  "drop (length s - length (takeWhile P (rev s))) s = rev (takeWhile P (rev s))"
proof -
  have "s = rev (dropWhile P (rev s)) @ rev (takeWhile P (rev s))"
    by (metis rev_append rev_rev_ident takeWhile_dropWhile_id)
  moreover have "length (rev (dropWhile P (rev s))) = length s - length (takeWhile P (rev s))"
    by (metis add_diff_cancel_left' length_append length_rev takeWhile_dropWhile_id)
  ultimately show ?thesis
    by (metis append_eq_conv_conj)
qed

lemma after_last_of:
  assumes "length s < 2 ^ 64"
  shows "substr s (size_add (find_last_of s c) 1) npos
         = Inr (rev (takeWhile (\<lambda>x. x \<noteq> c) (rev s)))"
proof (cases "c \<in> set s")
  case True
  let ?k = "length (takeWhile (\<lambda>x. x \<noteq> c) (rev s))"
  have k: "?k < length s"
    using True by (rule takeWhile_rev_shorter)
  then have "size_add (find_last_of s c) 1 = length s - ?k"
    using True assms by (simp add: find_last_of_def size_add_def)
  moreover have "take npos (drop (length s - ?k) s) = drop (length s - ?k) s"
    using assms by (simp add: npos_def)
  ultimately show ?thesis
    by (simp add: substr_def drop_to_last)
next
  case False
  then have all: "takeWhile (\<lambda>x. x \<noteq> c) (rev s) = rev s"
    by auto
  have none: "find_last_of s c = npos"
    using False by (simp add: find_last_of_def)
  show ?thesis
    unfolding all none size_add_npos_one
    by (simp add: substr_def take_npos [OF assms])
qed

lemma find_last_of_npos:
  assumes "length s < 2 ^ 64"
  shows "find_last_of s c = npos \<longleftrightarrow> c \<notin> set s"
proof (cases "c \<in> set s")
  case True
  then have "s \<noteq> []" by auto
  then have "length s - 1 - length (takeWhile (\<lambda>x. x \<noteq> c) (rev s)) < 2 ^ 64 - 1"
    using assms by (cases s) auto
  then show ?thesis
    using True by (simp add: find_last_of_def npos_def)
next
  case False
  then show ?thesis by (simp add: find_last_of_def)
qed

section \<open>Content types\<close>

lemma extension_of_segment:
  assumes "length seg < 2 ^ 64"
  shows "(let found2 = find_last_of seg (CHR ''.'')
          in if found2 = to_size_t (- 1) then Inr ''''
             else substr seg (size_add found2 1) npos)
         = Inr (if CHR ''.'' \<in> set seg
                then rev (takeWhile (\<lambda>c. c \<noteq> CHR ''.'') (rev seg)) else '''')"
  by (simp add: to_size_t_minus_one find_last_of_npos [OF assms] after_last_of [OF assms]
      del: One_nat_def)

lemma getFileExtension_spec:
  assumes "length validPath < 2 ^ 64"
  shows "getFileExtension validPath = Inr (extension_spec validPath)"
proof -
  let ?seg = "rev (takeWhile (\<lambda>x. x \<noteq> CHR ''/'') (rev validPath))"
  have seg: "substr validPath (size_add (find_last_of validPath (CHR ''/'')) 1) npos = Inr ?seg"
    using assms by (rule after_last_of)
  have "length ?seg \<le> length validPath"
    by (metis length_rev length_takeWhile_le)
  then have short: "length ?seg < 2 ^ 64"
    using assms by simp
  have "getFileExtension validPath
        = (let found2 = find_last_of ?seg (CHR ''.'')
           in if found2 = to_size_t (- 1) then Inr ''''
              else substr ?seg (size_add found2 1) npos)"
    unfolding getFileExtension_def Let_def seg by simp
  also have "\<dots> = Inr (if CHR ''.'' \<in> set ?seg
                then rev (takeWhile (\<lambda>c. c \<noteq> CHR ''.'') (rev ?seg)) else '''')"
    using short by (rule extension_of_segment)
  also have "\<dots> = Inr (extension_spec validPath)"
    by (simp add: extension_spec_def last_segment_spec_def)
  finally show ?thesis .
qed

lemma defaultContentType_spec: "defaultContentType ext = content_type_spec ext"
  by (simp add: defaultContentType_def content_type_spec_def content_type_table_def)

text \<open>
  Claim C9. The content type is a function of the path alone: for every path that a
  \<^verbatim>\<open>std::string\<close> can hold, getFileExtension returns (without a fault) the text after
  the last dot of the last path segment, the empty string when that segment has no dot,
  and defaultContentType maps an extension as the fixed table says, every extension
  that the table does not list (the empty one too) to application/octet-stream.
\<close>

theorem content_type_resolution:
  "(length validPath < 2 ^ 64 \<longrightarrow> getFileExtension validPath = Inr (extension_spec validPath))
   \<and> defaultContentType ext = content_type_spec ext"
  by (simp add: getFileExtension_spec defaultContentType_spec)

theorem content_type_resolution_witness:
  "length ''site/data.v2.json'' < (2::nat) ^ 64
   \<and> getFileExtension ''site/data.v2.json'' = Inr ''json''
   \<and> extension_spec ''site/data.v2.json'' = ''json''
   \<and> defaultContentType ''json'' = ''application/json''
   \<and> content_type_spec ''json'' = ''application/json''"
  using content_type_resolution [of "''site/data.v2.json''" "''json''"]
  by (simp add: extension_spec_def last_segment_spec_def content_type_spec_def
      content_type_table_def)

section \<open>Receiving a request\<close>

lemma c_str_recv:
  assumes "NUL \<notin> set req" and "length req < buffer_size"
  shows "c_str (snd (recv req buffer_size)) = Inr req"
proof -
  have "snd (recv req buffer_size) = req @ replicate (buffer_size - length req) NUL"
    using assms(2) by (simp add: recv_def)
  moreover have "NUL \<in> set (req @ replicate (buffer_size - length req) NUL)"
    using assms(2) by simp
  moreover have "takeWhile (\<lambda>c. c \<noteq> NUL) (req @ replicate (buffer_size - length req) NUL) = req"
  proof -
    have "x \<noteq> NUL" if "x \<in> set req" for x
      using that assms(1) by auto
    then have "takeWhile (\<lambda>c. c \<noteq> NUL) (req @ replicate (buffer_size - length req) NUL)
               = req @ takeWhile (\<lambda>c. c \<noteq> NUL) (replicate (buffer_size - length req) NUL)"
      by (rule takeWhile_append2)
    then show ?thesis
      by (simp add: takeWhile_replicate)
  qed
  ultimately show ?thesis
    by (simp add: c_str_def)
qed

lemma recv_count: "fst (recv req buffer_size) = int (min (length req) buffer_size)"
  by (simp add: recv_def)

lemma recv_count_fits:
  "\<not> to_size_t (fst (recv req buffer_size)) > buffer_size"
proof -
  have "nat (int (min (length req) buffer_size) mod 2 ^ 64) \<le> min (length req) buffer_size"
    by (metis mod_less_eq_dividend nat_int nat_mod_as_int of_nat_numeral of_nat_power)
  then show ?thesis
    unfolding recv_count to_size_t_def by simp
qed

lemma handleClient_recv:
  "handleClient fs directory (fst (recv req buffer_size)) (snd (recv req buffer_size))
   = (case c_str (snd (recv req buffer_size)) of
        Inl e \<Rightarrow> Inl e
      | Inr requestContents \<Rightarrow>
          (case prepareResponse fs directory '''' requestContents of
             Inl e \<Rightarrow> Inl e
           | Inr (sent, fs') \<Rightarrow> Inr (Sent sent, fs')))"
proof -
  have "\<not> fst (recv req buffer_size) < 0"
    by (simp add: recv_count)
  then show ?thesis
    unfolding handleClient_def Let_def using recv_count_fits [of req] by simp
qed

lemma handleClient_received:
  assumes "NUL \<notin> set req" and "length req < buffer_size"
  shows "handleClient fs directory (fst (recv req buffer_size)) (snd (recv req buffer_size))
         = (case prepareResponse fs directory '''' req of
              Inl e \<Rightarrow> Inl e
            | Inr (sent, fs') \<Rightarrow> Inr (Sent sent, fs'))"
  unfolding handleClient_recv c_str_recv [OF assms] by simp

section \<open>The request line\<close>

lemma search_empty_marker: "search s [] = Some 0"
  by (cases s) simp_all

lemma search_after_words:
  assumes "CHR '' '' \<notin> set pre"
  shows "search (pre @ CHR '' '' # post) (CHR '' '' # m) 
         = (if prefix m post then Some (length pre)
            else map_option (\<lambda>k. length pre + Suc k) (search post (CHR '' '' # m)))"
  using assms
proof (induction pre)
  case Nil
  then show ?case by (simp add: option.map_comp comp_def)
next
  case (Cons c cs)
  then show ?case
    by (auto simp: option.map_comp comp_def)
qed

lemma request_line_parsed:
  assumes "CHR '' '' \<notin> set verb" and "CHR '' '' \<notin> set path"
    and "length (verb @ '' /'' @ path @ '' '' @ rest) < 2 ^ 64"
  shows "getMethod (verb @ '' /'' @ path @ '' '' @ rest) = Inr verb"
    and "getPath (verb @ '' /'' @ path @ '' '' @ rest) = Inr path"
proof -
  let ?s = "verb @ '' /'' @ path @ '' '' @ rest"
  have whole: "take npos ?s = ?s"
    using assms(3) by (rule take_npos)
  have "search ?s '' '' = Some (length verb)"
    using search_after_words [OF assms(1), of "''/'' @ path @ '' '' @ rest" "''''"] by simp
  then have "find_str ?s '' '' = length verb"
    by (simp add: find_str_def)
  moreover have "find_str ?s '''' = 0"
    by (simp add: find_str_def search_empty_marker)
  ultimately show "getMethod ?s = Inr verb"
    using whole
    by (simp add: getMethod_def parseBetween_def Let_def substr_def size_add_def to_int_def
        to_size_t_def)
  have "search ?s '' /'' = Some (length verb)"
    using search_after_words [OF assms(1), of "''/'' @ path @ '' '' @ rest" "''/''"] by simp
  then have slash: "find_str ?s '' /'' = length verb"
    by (simp add: find_str_def)
  have start: "size_add (length verb) (to_size_t (to_int (length '' /''))) = length verb + 2"
    using assms(3) by (simp add: size_add_def to_int_def to_size_t_def)
  have after: "drop (length verb + 2) ?s = path @ '' '' @ rest"
    by simp
  have "length (path @ '' '' @ rest) < 2 ^ 64"
    using assms(3) by simp
  then have tail: "take npos (path @ '' '' @ rest) = path @ '' '' @ rest"
    by (rule take_npos)
  have "search (path @ '' '' @ rest) '' '' = Some (length path)"
    using search_after_words [OF assms(2), of rest "''''"] by simp
  then have space: "find_str (path @ '' '' @ rest) '' '' = length path"
    by (simp add: find_str_def)
  have first: "substr ?s (length verb + 2) npos = Inr (path @ '' '' @ rest)"
    unfolding substr_def after tail by simp
  have second: "substr ?s (length verb + 2) (length path) = Inr path"
    unfolding substr_def after by simp
  show "getPath ?s = Inr path"
    by (simp only: getPath_def parseBetween_def Let_def slash start first sum.case space second)
qed

section \<open>Decimal numbers\<close>

lemma digit_value:
  assumes "d < 10"
  shows "of_char (digit d) = 48 + d"
proof -
  have "d = 0 \<or> d = 1 \<or> d = 2 \<or> d = 3 \<or> d = 4 \<or> d = 5 \<or> d = 6 \<or> d = 7 \<or> d = 8 \<or> d = 9"
    using assms by arith
  then show ?thesis
    by (auto simp: digit_def)
qed

lemma to_string_value:
  "foldl (\<lambda>a c. 10 * a + (of_char c - 48)) 0 (to_string n) = n"
proof (induction n rule: to_string.induct)
  case (1 n)
  show ?case
  proof (cases "n < 10")
    case True
    then show ?thesis
      by (subst to_string.simps) (simp add: digit_value)
  next
    case False
    then have "foldl (\<lambda>a c. 10 * a + (of_char c - 48)) 0 (to_string (n div 10)) = n div 10"
      by (rule "1.IH")
    moreover have "of_char (digit (n mod 10)) - 48 = n mod 10"
      by (simp add: digit_value)
    ultimately show ?thesis
      using False by (subst to_string.simps) simp
  qed
qed

section \<open>The parser\<close>

lemma search_bound:
  "search s m = Some p \<Longrightarrow> p + length m \<le> length s"
proof (induction s arbitrary: p)
  case Nil
  then show ?case by (simp split: if_splits)
next
  case (Cons c cs)
  show ?case
  proof (cases "prefix m (c # cs)")
    case True
    then show ?thesis
      using Cons.prems by (auto dest: prefix_length_le)
  next
    case False
    then obtain q where "search cs m = Some q" and "p = Suc q"
      using Cons.prems by auto
    then show ?thesis
      using Cons.IH by simp
  qed
qed

lemma search_None: "search s m = None \<longleftrightarrow> \<not> sublist m s"
  by (induction s) (auto simp: sublist_Cons_right)

lemma find_str_le_npos:
  assumes "length s \<le> npos"
  shows "find_str s m \<le> npos"
proof (cases "search s m")
  case None
  then show ?thesis by (simp add: find_str_def)
next
  case (Some p)
  then have "p \<le> length s"
    using search_bound by fastforce
  then show ?thesis
    using Some assms by (simp add: find_str_def)
qed

lemma parseBetween_length:
  assumes "parseBetween s firstMarker secondMarker = Inr r"
  shows "length r \<le> npos"
proof -
  obtain start where r: "r = take (find_str (take npos (drop start s)) secondMarker) (drop start s)"
    using assms by (auto simp: parseBetween_def substr_def Let_def split: if_splits)
  have "find_str (take npos (drop start s)) secondMarker \<le> npos"
    by (rule find_str_le_npos) simp
  then show ?thesis
    unfolding r by simp
qed

section \<open>The echo route\<close>

lemma formulateEchoResponse_echo:
  assumes "length text \<le> npos"
  shows "formulateEchoResponse (''echo/'' @ text)
         = Inr (HTTP200 @ ''Content-Type: text/plain'' @ CRLF @ ''Content-Length: ''
                @ to_string (length text) @ CRLF @ CRLF @ text)"
  using assms by (simp add: formulateEchoResponse_def substr_def)

lemma prepareResponse_echo:
  assumes "getMethod requestContents = Inr ''GET''"
    and "getPath requestContents = Inr (''echo/'' @ text)"
  shows "prepareResponse fs directory '''' requestContents
         = Inr (HTTP200 @ ''Content-Type: text/plain'' @ CRLF @ ''Content-Length: ''
                @ to_string (length text) @ CRLF @ CRLF @ text, fs)"
proof -
  have "length (''echo/'' @ text) \<le> npos"
    using assms(2) unfolding getPath_def by (rule parseBetween_length)
  then have "length text \<le> npos"
    by simp
  then show ?thesis
    using formulateEchoResponse_echo [of "text"] by (simp add: prepareResponse_def assms)
qed

lemma echo_request_parsed:
  "getMethod echo_request = Inr ''GET''" "getPath echo_request = Inr (''echo/'' @ ''abc'')"
  by (simp_all add: getMethod_def getPath_def parseBetween_def echo_request_def find_str_def
      substr_def size_add_def to_int_def to_size_t_def npos_def CRLF_def CR_def LF_def)

lemma echo_request_line:
  assumes "CHR '' '' \<notin> set echoed"
    and "length (''GET /echo/'' @ echoed @ '' '' @ rest) < 2 ^ 64"
  shows "prepareResponse fs directory '''' (''GET /echo/'' @ echoed @ '' '' @ rest)
         = Inr (HTTP200 @ ''Content-Type: text/plain'' @ CRLF @ ''Content-Length: ''
                @ to_string (length echoed) @ CRLF @ CRLF @ echoed, fs)"
proof -
  have line: "''GET /echo/'' @ echoed @ '' '' @ rest
              = ''GET'' @ '' /'' @ (''echo/'' @ echoed) @ '' '' @ rest"
    by simp
  have "CHR '' '' \<notin> set ''GET''" and "CHR '' '' \<notin> set (''echo/'' @ echoed)"
    and "length (''GET'' @ '' /'' @ (''echo/'' @ echoed) @ '' '' @ rest) < 2 ^ 64"
    using assms by simp_all
  then have "getMethod (''GET'' @ '' /'' @ (''echo/'' @ echoed) @ '' '' @ rest) = Inr ''GET''"
    and "getPath (''GET'' @ '' /'' @ (''echo/'' @ echoed) @ '' '' @ rest)
         = Inr (''echo/'' @ echoed)"
    by (rule request_line_parsed)+
  then show ?thesis
    unfolding line by (rule prepareResponse_echo)
qed

text \<open>
  Claim C3. A GET request whose parsed path is \<open>echo/\<close> followed by a text is answered
  200 OK with Content-Type text/plain, a Content-Length that is the decimal number of
  bytes of the text, and the text itself as body, taken as it stands in the request. The
  request \<open>GET /echo/abc HTTP/1.1\<close> followed by a blank line, received through the
  buffer of handleClient, is answered with exactly the bytes the scenario lists.
\<close>

theorem echo_response:
  "(getMethod requestContents = Inr ''GET''
      \<and> getPath requestContents = Inr (''echo/'' @ text)
    \<longrightarrow> prepareResponse fs directory '''' requestContents
        = Inr (HTTP200 @ ''Content-Type: text/plain'' @ CRLF @ ''Content-Length: ''
               @ to_string (length text) @ CRLF @ CRLF @ text, fs))
   \<and> handleClient fs directory (fst (recv echo_request buffer_size))
         (snd (recv echo_request buffer_size))
       = Inr (Sent (''HTTP/1.1 200 OK'' @ CRLF @ ''Content-Type: text/plain'' @ CRLF
                    @ ''Content-Length: 3'' @ CRLF @ CRLF @ ''abc''), fs)"
proof -
  have three: "to_string (length ''abc'') = ''3''"
    by (simp add: to_string.simps digit_def)
  have prepared: "prepareResponse fs directory '''' echo_request
        = Inr (HTTP200 @ ''Content-Type: text/plain'' @ CRLF @ ''Content-Length: ''
               @ ''3'' @ CRLF @ CRLF @ ''abc'', fs)"
    unfolding three [symmetric] using echo_request_parsed by (rule prepareResponse_echo)
  have "NUL \<notin> set echo_request" and "length echo_request < buffer_size"
    by (simp_all add: echo_request_def buffer_size_def CRLF_def CR_def LF_def NUL_def)
  then have "handleClient fs directory (fst (recv echo_request buffer_size))
         (snd (recv echo_request buffer_size))
       = Inr (Sent (''HTTP/1.1 200 OK'' @ CRLF @ ''Content-Type: text/plain'' @ CRLF
                    @ ''Content-Length: 3'' @ CRLF @ CRLF @ ''abc''), fs)"
    by (simp add: handleClient_received prepared HTTP200_def)
  then show ?thesis
    by (simp add: prepareResponse_echo)
qed

theorem echo_response_witness:
  "getMethod echo_request = Inr ''GET''
   \<and> getPath echo_request = Inr (''echo/'' @ ''abc'')
   \<and> prepareResponse empty_disk ''/tmp/d'' '''' echo_request
       = Inr (HTTP200 @ ''Content-Type: text/plain'' @ CRLF @ ''Content-Length: ''
              @ ''3'' @ CRLF @ CRLF @ ''abc'', empty_disk)"
proof -
  have "to_string (length ''abc'') = ''3''"
    by (simp add: to_string.simps digit_def)
  then show ?thesis
    using echo_response [of echo_request "''abc''" empty_disk "''/tmp/d''"] echo_request_parsed
    by simp
qed

section \<open>Methods and routes that the handler does not serve\<close>

lemma prepareResponse_other_method:
  assumes "getPath requestContents = Inr path"
    and "getMethod requestContents = Inr method"
    and "method \<noteq> ''GET''" and "method \<noteq> ''POST''"
  shows "prepareResponse fs directory '''' requestContents = Inr ('''', fs)"
  using assms by (simp add: prepareResponse_def)

lemma prepareResponse_post_elsewhere:
  assumes "getPath requestContents = Inr path"
    and "getMethod requestContents = Inr ''POST''"
    and "take 6 path \<noteq> ''files/''"
  shows "prepareResponse fs directory '''' requestContents = Inr (HTTP501 @ CRLF, fs)"
  using assms by (simp add: prepareResponse_def)

lemma head_request_parsed:
  "getMethod head_request = Inr ''HEAD''" "getPath head_request = Inr ''''"
  by (simp_all add: getMethod_def getPath_def parseBetween_def head_request_def find_str_def
      substr_def size_add_def to_int_def to_size_t_def npos_def CRLF_def CR_def LF_def)

text \<open>
  Claim C1, at the request \<open>HEAD / HTTP/1.1\<close> followed by a blank line: handleClient
  leaves the response empty, so that \<^verbatim>\<open>send\<close> is given no byte at all, where the claim
  (and the comment in the source) says 501 Not Implemented. The chain of tests on the
  method has no last \<^verbatim>\<open>else\<close>; the 501 is sent to POST requests outside \<open>files/\<close>
  only.
\<close>

theorem head_request_unanswered:
  "handleClient fs directory (fst (recv head_request buffer_size))
     (snd (recv head_request buffer_size)) = Inr (Sent '''', fs)"
proof -
  have "NUL \<notin> set head_request" and "length head_request < buffer_size"
    by (simp_all add: head_request_def buffer_size_def CRLF_def CR_def LF_def NUL_def)
  moreover have "prepareResponse fs directory '''' head_request = Inr ('''', fs)"
    using head_request_parsed(2,1) by (rule prepareResponse_other_method) simp_all
  ultimately show ?thesis
    by (simp add: handleClient_received)
qed

section \<open>Requests longer than the buffer\<close>

lemma status_lines_differ:
  "HTTP200 @ r \<noteq> HTTP414 @ CRLF" "HTTP201 @ r \<noteq> HTTP414 @ CRLF"
  "HTTP404 @ r \<noteq> HTTP414 @ CRLF" "HTTP500 @ r \<noteq> HTTP414 @ CRLF"
  "HTTP501 @ r \<noteq> HTTP414 @ CRLF" "'''' \<noteq> HTTP414 @ CRLF"
  by (simp_all add: HTTP200_def HTTP201_def HTTP404_def HTTP500_def HTTP501_def HTTP414_def)

lemma fetchFileContents_not_414:
  "fetchFileContents fs path contentType \<noteq> Inr (HTTP414 @ CRLF)"
proof
  assume "fetchFileContents fs path contentType = Inr (HTTP414 @ CRLF)"
  then obtain r where "HTTP200 @ r = HTTP414 @ CRLF"
    unfolding fetchFileContents_def Let_def by (auto split: sum.splits)
  then show False
    using status_lines_differ(1) by blast
qed

lemma codeCraftersGetFile_not_414:
  "codeCraftersGetFile fs path directory \<noteq> Inr (HTTP414 @ CRLF)"
  using fetchFileContents_not_414 status_lines_differ(3) [of CRLF]
  by (auto simp: codeCraftersGetFile_def Let_def split: sum.splits)

lemma formulateEchoResponse_not_414:
  "formulateEchoResponse path \<noteq> Inr (HTTP414 @ CRLF)"
proof
  assume "formulateEchoResponse path = Inr (HTTP414 @ CRLF)"
  then obtain r where "HTTP200 @ r = HTTP414 @ CRLF"
    unfolding formulateEchoResponse_def by (auto split: sum.splits)
  then show False
    using status_lines_differ(1) by blast
qed

lemma formulateUserAgentResponse_not_414:
  "formulateUserAgentResponse requestContents \<noteq> Inr (HTTP414 @ CRLF)"
proof
  assume "formulateUserAgentResponse requestContents = Inr (HTTP414 @ CRLF)"
  then obtain r where "HTTP200 @ r = HTTP414 @ CRLF"
    unfolding formulateUserAgentResponse_def by (auto split: sum.splits)
  then show False
    using status_lines_differ(1) by blast
qed

lemma prepareResponse_not_414:
  "prepareResponse fs directory '''' requestContents \<noteq> Inr (HTTP414 @ CRLF, fs')"
proof
  assume sent: "prepareResponse fs directory '''' requestContents = Inr (HTTP414 @ CRLF, fs')"
  then obtain path verb where "getPath requestContents = Inr path"
    and "getMethod requestContents = Inr verb"
    by (auto simp: prepareResponse_def split: sum.splits)
  then show False
    using sent formulateEchoResponse_not_414 [of path]
      formulateUserAgentResponse_not_414 [of requestContents]
      codeCraftersGetFile_not_414 [of fs path directory] status_lines_differ(1-5) [of CRLF]
      status_lines_differ(6)
      fetchFileContents_not_414 [of fs path]
    by (auto simp: prepareResponse_def map_sum_def split: sum.splits if_splits prod.splits)
qed

lemma handleClient_overflow_branch:
  assumes "0 \<le> bytes_received" and "to_size_t bytes_received > buffer_size"
    and "c_str buffer = Inr requestContents"
    and "getPath requestContents = Inr path" and "getMethod requestContents = Inr verb"
  shows "handleClient fs directory bytes_received buffer = Inr (Sent (HTTP414 @ CRLF), fs)"
  using assms by (simp add: handleClient_def prepareResponse_def HTTP414_def)

lemma recv_within_buffer:
  "0 \<le> fst (recv req buffer_size)" "\<not> to_size_t (fst (recv req buffer_size)) > buffer_size"
  using recv_count_fits [of req] by (simp_all add: recv_count)

lemma handleClient_never_414:
  assumes "bytes_received \<le> int buffer_size"
  shows "handleClient fs directory bytes_received buffer \<noteq> Inr (Sent (HTTP414 @ CRLF), fs')"
proof (cases "bytes_received < 0")
  case True
  then show ?thesis
    by (simp add: handleClient_def)
next
  case False
  then have "to_size_t bytes_received = nat bytes_received"
    using assms by (simp add: to_size_t_def buffer_size_def mod_pos_pos_trivial)
  then have "\<not> to_size_t bytes_received > buffer_size"
    using assms by simp
  then show ?thesis
    using False prepareResponse_not_414 [of fs directory _ fs']
    by (auto simp: handleClient_def split: sum.splits)
qed

lemma oversized_request_facts:
  "buffer_size < length oversized_request" "NUL \<notin> set (take buffer_size oversized_request)"
proof -
  show "buffer_size < length oversized_request"
    by (simp add: oversized_request_def buffer_size_def CRLF_def)
  have "NUL \<notin> set oversized_request"
    by (simp add: oversized_request_def CRLF_def CR_def LF_def NUL_def)
  then show "NUL \<notin> set (take buffer_size oversized_request)"
    by (meson in_set_takeD)
qed

text \<open>
  Claim C7, at a request of 1131 bytes: the receive fills the buffer and reports 1024
  bytes, which is not more than the size of the buffer, so the test that sets the 414
  response does not fire; the request text is then read from a buffer that holds no NUL
  byte. No 414 is sent there, and none is sent for any request, of any length, that
  arrives: the receive never reports more bytes than the buffer holds.
\<close>

theorem oversized_request_no_414:
  "handleClient fs directory (fst (recv oversized_request buffer_size))
     (snd (recv oversized_request buffer_size)) = Inl Unterminated
   \<and> handleClient fs directory (fst (recv req buffer_size)) (snd (recv req buffer_size))
       \<noteq> Inr (Sent (HTTP414 @ CRLF), fs')"
proof -
  have "snd (recv oversized_request buffer_size) = take buffer_size oversized_request"
    using oversized_request_facts(1) by (simp add: recv_def)
  then have "c_str (snd (recv oversized_request buffer_size)) = Inl Unterminated"
    using oversized_request_facts(2) by (simp add: c_str_def)
  then have "handleClient fs directory (fst (recv oversized_request buffer_size))
     (snd (recv oversized_request buffer_size)) = Inl Unterminated"
    unfolding handleClient_recv by simp
  moreover have "handleClient fs directory (fst (recv req buffer_size))
     (snd (recv req buffer_size)) \<noteq> Inr (Sent (HTTP414 @ CRLF), fs')"
    unfolding handleClient_recv using prepareResponse_not_414 [of fs directory _ fs']
    by (auto split: sum.splits)
  ultimately show ?thesis
    by simp
qed

section \<open>Markers that are absent\<close>

lemma to_size_t_to_int:
  assumes "n < 2 ^ 31"
  shows "to_size_t (to_int n) = n"
proof -
  have "(int n + 2 ^ 31) mod 2 ^ 32 = int n + 2 ^ 31"
    using assms by (simp add: mod_pos_pos_trivial)
  then have "to_int n = int n"
    by (simp add: to_int_def)
  then show ?thesis
    using assms by (simp add: to_size_t_def mod_pos_pos_trivial)
qed

lemma start_when_absent:
  assumes "\<not> sublist m s" and "length m < 2 ^ 31"
  shows "size_add (find_str s m) (to_size_t (to_int (length m))) = length m - 1"
proof -
  have "search s m = None"
    using assms(1) by (simp add: search_None)
  then have "find_str s m = npos"
    by (simp add: find_str_def)
  moreover have "m \<noteq> []"
    using assms(1) by auto
  then have "1 \<le> length m"
    by (cases m) simp_all
  then have "2 ^ 64 - 1 + length m = (length m - 1) + 2 ^ 64"
    by simp
  then have "(2 ^ 64 - 1 + length m) mod 2 ^ 64 = (length m - 1) mod 2 ^ 64"
    by (metis mod_add_self2)
  then have "(2 ^ 64 - 1 + length m) mod 2 ^ 64 = length m - 1"
    using assms(2) by simp
  ultimately show ?thesis
    by (simp add: size_add_def npos_def to_size_t_to_int [OF assms(2)])
qed

lemma parseFromThisToEnd_absent:
  assumes "\<not> sublist m s" and "length m < 2 ^ 31"
  shows "parseFromThisToEnd s m
         = (if length m - 1 > length s then Inl OutOfRange else Inr (drop (length m - 1) s))"
  by (simp add: parseFromThisToEnd_def Let_def start_when_absent [OF assms] substr_def)

lemma parseBetween_absent:
  assumes "\<not> sublist m1 s" and "length m1 < 2 ^ 31"
  shows "parseBetween s m1 m2
         = (if length m1 - 1 > length s then Inl OutOfRange
            else Inr (take (find_str (take npos (drop (length m1 - 1) s)) m2)
                        (drop (length m1 - 1) s)))"
  by (simp add: parseBetween_def Let_def start_when_absent [OF assms] substr_def)

lemma blank_line_absent: "\<not> sublist (CRLF @ CRLF) unfinished_post"
  by (simp add: search_None [symmetric] unfinished_post_def CRLF_def CR_def LF_def)

lemma user_agent_absent: "\<not> sublist (CRLF @ ''User-Agent: '') user_agent_request"
  by (simp add: search_None [symmetric] user_agent_request_def CRLF_def CR_def LF_def)

lemma user_agent_request_parsed:
  "getMethod user_agent_request = Inr ''GET''"
  "getPath user_agent_request = Inr ''user-agent''"
  by (simp_all add: getMethod_def getPath_def parseBetween_def user_agent_request_def
      find_str_def substr_def size_add_def to_int_def to_size_t_def npos_def CRLF_def CR_def
      LF_def)

lemma user_agent_request_body:
  "parseBetween user_agent_request (CRLF @ ''User-Agent: '') CRLF = Inr ''nt HTTP/1.1''"
  using parseBetween_absent [OF user_agent_absent, of CRLF]
  by (simp add: user_agent_request_def find_str_def npos_def CRLF_def CR_def LF_def)

lemma empty_request_path: "getPath '''' = Inl OutOfRange"
  using parseBetween_absent [of "'' /''" "''''" "'' ''"] by (simp add: getPath_def)

text \<open>
  Claim C2, at the three places where the handler parses with a marker that can be
  absent. The search returns \<open>npos\<close>, and \<open>npos\<close> plus the length of the marker wraps
  around to that length less one, which is taken as the index to start from. For a POST
  without a blank line, parseFromThisToEnd returns the request from index 3 on; for a
  request without a User-Agent header, parseBetween returns the bytes from index 13 to
  the end of the request line; and for the empty request, which is what the handler
  reads when a client sends nothing, getPath throws, which ends the process. The claim
  says an empty string in the three cases, and no fault.
\<close>

theorem absent_marker_results:
  "\<not> sublist (CRLF @ CRLF) unfinished_post
   \<and> parseFromThisToEnd unfinished_post (CRLF @ CRLF)
       = Inr (''T /files/test.txt HTTP/1.1'' @ CRLF @ ''Content-Length: 5'' @ CRLF)
   \<and> \<not> sublist (CRLF @ ''User-Agent: '') user_agent_request
   \<and> parseBetween user_agent_request (CRLF @ ''User-Agent: '') CRLF = Inr ''nt HTTP/1.1''
   \<and> \<not> sublist '' /'' ''''
   \<and> getPath '''' = Inl OutOfRange
   \<and> handleClient fs directory (fst (recv '''' buffer_size)) (snd (recv '''' buffer_size))
       = Inl OutOfRange"
proof -
  have "parseFromThisToEnd unfinished_post (CRLF @ CRLF)
        = Inr (''T /files/test.txt HTTP/1.1'' @ CRLF @ ''Content-Length: 5'' @ CRLF)"
    using parseFromThisToEnd_absent [OF blank_line_absent]
    by (simp add: unfinished_post_def CRLF_def)
  moreover have "NUL \<notin> set ''''" and "length '''' < buffer_size"
    by (simp_all add: buffer_size_def)
  then have "handleClient fs directory (fst (recv '''' buffer_size))
               (snd (recv '''' buffer_size))
             = (case prepareResponse fs directory '''' '''' of
                  Inl e \<Rightarrow> Inl e
                | Inr (sent, fs') \<Rightarrow> Inr (Sent sent, fs'))"
    by (rule handleClient_received)
  then have "handleClient fs directory (fst (recv '''' buffer_size))
               (snd (recv '''' buffer_size)) = Inl OutOfRange"
    by (simp add: prepareResponse_def empty_request_path)
  ultimately show ?thesis
    using blank_line_absent user_agent_absent user_agent_request_body empty_request_path
    by simp
qed

section \<open>The user-agent route\<close>

text \<open>
  Claim C8, at the request \<open>GET /user-agent HTTP/1.1\<close> with a Host header and no
  User-Agent header: the response is 200 OK with Content-Length 11 and the body
  \<open>nt HTTP/1.1\<close>, the bytes of the request line from index 13 to its end, where the
  claim says an empty body and Content-Length 0.
\<close>

theorem user_agent_missing_body:
  "\<not> sublist (CRLF @ ''User-Agent: '') user_agent_request
   \<and> handleClient fs directory (fst (recv user_agent_request buffer_size))
         (snd (recv user_agent_request buffer_size))
       = Inr (Sent (''HTTP/1.1 200 OK'' @ CRLF @ ''Content-Type: text/plain'' @ CRLF
                    @ ''Content-Length: 11'' @ CRLF @ CRLF @ ''nt HTTP/1.1''), fs)"
proof -
  have "NUL \<notin> set user_agent_request" and "length user_agent_request < buffer_size"
    by (simp_all add: user_agent_request_def buffer_size_def CRLF_def CR_def LF_def NUL_def)
  moreover have "length ''nt HTTP/1.1'' = 11" and "to_string 11 = ''11''"
    by (simp_all add: to_string.simps digit_def)
  then have "formulateUserAgentResponse user_agent_request
        = Inr (''HTTP/1.1 200 OK'' @ CRLF @ ''Content-Type: text/plain'' @ CRLF
               @ ''Content-Length: 11'' @ CRLF @ CRLF @ ''nt HTTP/1.1'')"
    unfolding formulateUserAgentResponse_def user_agent_request_body sum.case
    by (simp only: HTTP200_def append_assoc append_Cons append_Nil)
  then have "prepareResponse fs directory '''' user_agent_request
        = Inr (''HTTP/1.1 200 OK'' @ CRLF @ ''Content-Type: text/plain'' @ CRLF
               @ ''Content-Length: 11'' @ CRLF @ CRLF @ ''nt HTTP/1.1'', fs)"
    by (simp add: prepareResponse_def user_agent_request_parsed)
  ultimately show ?thesis
    using user_agent_absent by (simp add: handleClient_received)
qed

section \<open>Reading files\<close>

lemma to_int_npos: "to_int npos = - 1"
  by (simp add: to_int_def npos_def)

lemma isValidFilePath_unreadable:
  assumes "ifstream_open fs path = None"
  shows "\<not> isValidFilePath fs path"
  using assms by (simp add: isValidFilePath_def Let_def)

lemma isValidFilePath_readable:
  assumes "ifstream_open fs path = Some bytes"
  shows "isValidFilePath fs path \<longleftrightarrow> CHR ''/'' \<in> set path"
proof -
  have short: "length path < 4096"
    using assms by (auto simp: ifstream_open_def PATH_MAX_def split: if_splits)
  show ?thesis
  proof (cases "CHR ''/'' \<in> set path")
    case True
    let ?k = "length (takeWhile (\<lambda>x. x \<noteq> CHR ''/'') path)"
    have "?k \<le> length path"
      by (rule length_takeWhile_le)
    moreover from this have "to_size_t (to_int ?k) = ?k"
      using short by (intro to_size_t_to_int) simp
    ultimately have "\<not> to_size_t (to_int (find_first_of path (CHR ''/''))) > length path"
      using True by (simp add: find_first_of_def)
    then show ?thesis
      using True assms by (simp add: isValidFilePath_def Let_def)
  next
    case False
    then have "to_size_t (to_int (find_first_of path (CHR ''/''))) = npos"
      by (simp add: find_first_of_def to_int_npos to_size_t_minus_one)
    moreover have "length path < npos"
      using short by (simp add: npos_def)
    ultimately show ?thesis
      using False by (simp add: isValidFilePath_def Let_def)
  qed
qed

lemma isValidFilePath_iff:
  "isValidFilePath fs path \<longleftrightarrow> CHR ''/'' \<in> set path \<and> ifstream_open fs path \<noteq> None"
proof (cases "ifstream_open fs path")
  case None
  then show ?thesis
    using isValidFilePath_unreadable by simp
next
  case (Some bytes)
  then show ?thesis
    using isValidFilePath_readable by simp
qed

lemma files_route_name:
  "substr (''files/'' @ name) 6 (length (''files/'' @ name)) = Inr name"
  by (simp add: substr_def)

lemma codeCraftersGetFile_invalid:
  assumes "\<not> isValidFilePath fs (directory @ name)"
  shows "codeCraftersGetFile fs (''files/'' @ name) directory = Inr (HTTP404 @ CRLF)"
  unfolding codeCraftersGetFile_def files_route_name using assms by simp

lemma prepareResponse_files:
  assumes "getMethod requestContents = Inr ''GET''"
    and "getPath requestContents = Inr (''files/'' @ name)"
  shows "prepareResponse fs directory '''' requestContents
         = map_sum id (\<lambda>r. (r, fs)) (codeCraftersGetFile fs (''files/'' @ name) directory)"
  by (simp add: prepareResponse_def assms)

lemma read_lines_all: "read_lines True inp contents = contents @ inp @ [LF]"
proof (induction "length inp" arbitrary: inp contents rule: less_induct)
  case less
  let ?line = "takeWhile (\<lambda>c. c \<noteq> LF) inp"
  have split: "?line @ dropWhile (\<lambda>c. c \<noteq> LF) inp = inp"
    by (rule takeWhile_dropWhile_id)
  show ?case
  proof (cases "dropWhile (\<lambda>c. c \<noteq> LF) inp")
    case Nil
    have whole: "?line = inp"
      using split unfolding Nil by simp
    have "getline inp = (inp, [], False)"
      unfolding getline_def Nil whole by simp
    then have "read_lines True inp contents = read_lines False [] (contents @ inp @ [LF])"
      by (subst read_lines.simps) simp
    also have "\<dots> = contents @ inp @ [LF]"
      by (subst read_lines.simps) simp
    finally show ?thesis .
  next
    case (Cons c rest)
    have "\<not> hd (dropWhile (\<lambda>c. c \<noteq> LF) inp) \<noteq> LF"
      by (rule hd_dropWhile) (simp add: Cons)
    then have c: "c = LF"
      by (simp add: Cons)
    have parts: "?line @ LF # rest = inp"
      using split unfolding Cons c .
    have "length (?line @ LF # rest) = length inp"
      by (simp only: parts)
    then have "length rest < length inp"
      by simp
    then have "read_lines True rest (contents @ ?line @ [LF])
               = (contents @ ?line @ [LF]) @ rest @ [LF]"
      by (rule less)
    also have "\<dots> = contents @ (?line @ LF # rest) @ [LF]"
      by simp
    also have "\<dots> = contents @ inp @ [LF]"
      by (simp only: parts)
    finally have rest: "read_lines True rest (contents @ ?line @ [LF]) = contents @ inp @ [LF]" .
    have "getline inp = (?line, rest, True)"
      unfolding getline_def Cons by simp
    then have "read_lines True inp contents = read_lines True rest (contents @ ?line @ [LF])"
      by (subst read_lines.simps) simp
    then show ?thesis
      by (simp only: rest)
  qed
qed

lemma fetchFileContents_readable:
  assumes "ifstream_open fs path = Some bytes" and "length bytes < 2 ^ 64"
  shows "fetchFileContents fs path contentType
         = Inr (HTTP200 @ ''Content-Type: '' @ contentType @ CRLF @ ''Content-Length: ''
                @ to_string (length bytes) @ CRLF @ CRLF @ bytes)"
proof -
  have "size_sub (length (bytes @ [LF])) 1 = length bytes"
    using assms(2) by (simp add: size_sub_def)
  then have "substr (bytes @ [LF]) 0 (size_sub (length (bytes @ [LF])) 1) = Inr bytes"
    by (simp add: substr_def)
  then show ?thesis
    unfolding fetchFileContents_def assms(1) Let_def option.case read_lines_all append_Nil
    by simp
qed

lemma codeCraftersGetFile_readable:
  assumes "isValidFilePath fs (directory @ name)"
    and "ifstream_open fs (directory @ name) = Some bytes" and "length bytes < 2 ^ 64"
  shows "codeCraftersGetFile fs (''files/'' @ name) directory
         = Inr (HTTP200 @ ''Content-Type: application/octet-stream'' @ CRLF
                @ ''Content-Length: '' @ to_string (length bytes) @ CRLF @ CRLF @ bytes)"
  unfolding codeCraftersGetFile_def files_route_name
  using assms fetchFileContents_readable [OF assms(2,3), of "''application/octet-stream''"]
  by simp

lemma notes_request_parsed:
  "getMethod notes_request = Inr ''GET''"
  "getPath notes_request = Inr (''files/'' @ ''notes.txt'')"
  by (simp_all add: getMethod_def getPath_def parseBetween_def notes_request_def
      find_str_def substr_def size_add_def to_int_def to_size_t_def npos_def CRLF_def CR_def
      LF_def)

lemma files_request_received:
  assumes "NUL \<notin> set req" and "length req < buffer_size"
    and "getMethod req = Inr ''GET''" and "getPath req = Inr (''files/'' @ name)"
  shows "handleClient fs directory (fst (recv req buffer_size)) (snd (recv req buffer_size))
         = map_sum id (\<lambda>r. (Sent r, fs)) (codeCraftersGetFile fs (''files/'' @ name) directory)"
proof -
  have "handleClient fs directory (fst (recv req buffer_size)) (snd (recv req buffer_size))
        = (case prepareResponse fs directory '''' req of
             Inl e \<Rightarrow> Inl e
           | Inr (sent, fs') \<Rightarrow> Inr (Sent sent, fs'))"
    using assms(1,2) by (rule handleClient_received)
  then show ?thesis
    unfolding prepareResponse_files [OF assms(3,4), of fs directory]
    by (cases "codeCraftersGetFile fs (''files/'' @ name) directory") simp_all
qed

lemma notes_request_received:
  "handleClient fs directory (fst (recv notes_request buffer_size))
     (snd (recv notes_request buffer_size))
   = map_sum id (\<lambda>r. (Sent r, fs)) (codeCraftersGetFile fs (''files/'' @ ''notes.txt'') directory)"
proof -
  have "NUL \<notin> set notes_request" and "length notes_request < buffer_size"
    by (simp_all add: notes_request_def buffer_size_def CRLF_def CR_def LF_def NUL_def)
  then show ?thesis
    using notes_request_parsed by (rule files_request_received)
qed

text \<open>
  Claim C4, with the directory \<open>/tmp/d\<close> and the file \<open>/tmp/d/notes.txt\<close> in it: the
  request \<open>GET /files/notes.txt\<close> is answered 404 Not Found, as codeCraftersGetFile
  puts no slash between the directory and the name and looks for \<open>/tmp/dnotes.txt\<close>.
  The claim says 200 OK with the bytes of the file. That is the answer when the
  directory is given as \<open>/tmp/d/\<close>: 200 OK, Content-Type application/octet-stream,
  Content-Length 3 and the three bytes of the file, the last newline too.
\<close>

theorem file_under_directory_not_found:
  "files notes_disk ''/tmp/d/notes.txt'' = Some (''hi'' @ [LF])
   \<and> handleClient notes_disk ''/tmp/d'' (fst (recv notes_request buffer_size))
         (snd (recv notes_request buffer_size))
       = Inr (Sent (HTTP404 @ CRLF), notes_disk)
   \<and> handleClient notes_disk ''/tmp/d/'' (fst (recv notes_request buffer_size))
         (snd (recv notes_request buffer_size))
       = Inr (Sent (''HTTP/1.1 200 OK'' @ CRLF @ ''Content-Type: application/octet-stream''
                    @ CRLF @ ''Content-Length: 3'' @ CRLF @ CRLF @ ''hi'' @ [LF]),
              notes_disk)"
proof -
  have "ifstream_open notes_disk (''/tmp/d'' @ ''notes.txt'') = None"
    by (simp add: ifstream_open_def notes_disk_def)
  then have lost: "codeCraftersGetFile notes_disk (''files/'' @ ''notes.txt'') ''/tmp/d''
                   = Inr (HTTP404 @ CRLF)"
    by (intro codeCraftersGetFile_invalid isValidFilePath_unreadable)
  have opened: "ifstream_open notes_disk (''/tmp/d/'' @ ''notes.txt'') = Some (''hi'' @ [LF])"
    by (simp add: ifstream_open_def notes_disk_def PATH_MAX_def)
  then have valid: "isValidFilePath notes_disk (''/tmp/d/'' @ ''notes.txt'')"
    by (simp add: isValidFilePath_iff)
  have three: "to_string (length (''hi'' @ [LF])) = ''3''"
    by (simp add: to_string.simps digit_def)
  have found: "codeCraftersGetFile notes_disk (''files/'' @ ''notes.txt'') ''/tmp/d/''
               = Inr (''HTTP/1.1 200 OK'' @ CRLF @ ''Content-Type: application/octet-stream''
                      @ CRLF @ ''Content-Length: 3'' @ CRLF @ CRLF @ ''hi'' @ [LF])"
    using codeCraftersGetFile_readable [OF valid opened] unfolding three
    by (simp add: HTTP200_def)
  have "files notes_disk ''/tmp/d/notes.txt'' = Some (''hi'' @ [LF])"
    by (simp add: notes_disk_def)
  then show ?thesis
    unfolding notes_request_received lost found by simp
qed

lemma secret_request_parsed:
  "getMethod secret_request = Inr ''GET''"
  "getPath secret_request = Inr (''files/'' @ ''secret.txt'')"
  by (simp_all add: getMethod_def getPath_def parseBetween_def secret_request_def
      find_str_def substr_def size_add_def to_int_def to_size_t_def npos_def CRLF_def CR_def
      LF_def)

text \<open>
  Claim C5, with the directory \<open>/tmp/d\<close>, which holds no file, and the file
  \<open>/tmp/dsecret.txt\<close> beside it: the request \<open>GET /files/secret.txt\<close> is answered
  200 OK with the ten bytes of \<open>/tmp/dsecret.txt\<close>, as codeCraftersGetFile puts no
  slash between the directory and the name. The claim says 404 Not Found with no body,
  since there is no \<open>secret.txt\<close> under the directory. The first half of the claim
  holds: isValidFilePath is true exactly when the path contains a slash and opens for
  reading.
\<close>

theorem file_beside_directory_served:
  "files stray_disk ''/tmp/d/secret.txt'' = None
   \<and> handleClient stray_disk ''/tmp/d'' (fst (recv secret_request buffer_size))
         (snd (recv secret_request buffer_size))
       = Inr (Sent (''HTTP/1.1 200 OK'' @ CRLF @ ''Content-Type: application/octet-stream''
                    @ CRLF @ ''Content-Length: 10'' @ CRLF @ CRLF @ ''classified''),
              stray_disk)"
proof -
  have opened: "ifstream_open stray_disk (''/tmp/d'' @ ''secret.txt'') = Some ''classified''"
    by (simp add: ifstream_open_def stray_disk_def PATH_MAX_def)
  then have valid: "isValidFilePath stray_disk (''/tmp/d'' @ ''secret.txt'')"
    by (simp add: isValidFilePath_iff)
  have ten: "to_string (length ''classified'') = ''10''"
  proof -
    have "length ''classified'' = 10"
      by simp
    then show ?thesis
      by (simp only: to_string.simps [of 10]) (simp add: to_string.simps digit_def)
  qed
  have served: "codeCraftersGetFile stray_disk (''files/'' @ ''secret.txt'') ''/tmp/d''
               = Inr (''HTTP/1.1 200 OK'' @ CRLF @ ''Content-Type: application/octet-stream''
                      @ CRLF @ ''Content-Length: 10'' @ CRLF @ CRLF @ ''classified'')"
    using codeCraftersGetFile_readable [OF valid opened] unfolding ten
    by (simp add: HTTP200_def)
  have "NUL \<notin> set secret_request" and "length secret_request < buffer_size"
    by (simp_all add: secret_request_def buffer_size_def CRLF_def CR_def LF_def NUL_def)
  then have "handleClient stray_disk ''/tmp/d'' (fst (recv secret_request buffer_size))
         (snd (recv secret_request buffer_size))
       = map_sum id (\<lambda>r. (Sent r, stray_disk))
           (codeCraftersGetFile stray_disk (''files/'' @ ''secret.txt'') ''/tmp/d'')"
    using secret_request_parsed by (rule files_request_received)
  then have "handleClient stray_disk ''/tmp/d'' (fst (recv secret_request buffer_size))
         (snd (recv secret_request buffer_size))
       = Inr (Sent (''HTTP/1.1 200 OK'' @ CRLF @ ''Content-Type: application/octet-stream''
                    @ CRLF @ ''Content-Length: 10'' @ CRLF @ CRLF @ ''classified''),
              stray_disk)"
    unfolding served by simp
  moreover have "files stray_disk ''/tmp/d/secret.txt'' = None"
    by (simp add: stray_disk_def)
  ultimately show ?thesis
    by simp
qed

section \<open>Storing files\<close>



lemma storeFile_opened:
  assumes "ofstream_open fs dest"
    and "dest = (if directory = '''' then directory @ name else directory @ ''/'' @ name)"
    and "parseFromThisToEnd requestContents (CRLF @ CRLF) = Inr body"
  shows "storeFile fs (''files/'' @ name) directory requestContents
         = Inr (True, write_file fs dest body)"
  unfolding storeFile_def files_route_name using assms by (simp add: Let_def)

lemma storeFile_closed:
  assumes "\<not> ofstream_open fs dest"
    and "dest = (if directory = '''' then directory @ name else directory @ ''/'' @ name)"
  shows "storeFile fs (''files/'' @ name) directory requestContents = Inr (False, fs)"
  unfolding storeFile_def files_route_name using assms by (simp add: Let_def)

lemma prepareResponse_store:
  assumes "getMethod requestContents = Inr ''POST''"
    and "getPath requestContents = Inr (''files/'' @ name)"
    and "storeFile fs (''files/'' @ name) directory requestContents = Inr (stored, fs')"
  shows "prepareResponse fs directory '''' requestContents
         = Inr (if stored then HTTP201 @ CRLF else HTTP500 @ CRLF, fs')"
  using assms by (simp add: prepareResponse_def)





section \<open>Storing a file and fetching it again\<close>

lemma round_trip_empty_directory:
  assumes "storeFile fs (''files/'' @ name) '''' requestContents = Inr (True, fs')"
    and "parseFromThisToEnd requestContents (CRLF @ CRLF) = Inr body"
    and "CHR ''/'' \<in> set name" and "length body < 2 ^ 64"
  shows "codeCraftersGetFile fs' (''files/'' @ name) ''''
         = Inr (HTTP200 @ ''Content-Type: application/octet-stream'' @ CRLF
                @ ''Content-Length: '' @ to_string (length body) @ CRLF @ CRLF @ body)"
proof -
  have opened: "ofstream_open fs name"
    using assms(1) storeFile_closed [of fs name "''''" name requestContents] by auto
  then have "storeFile fs (''files/'' @ name) '''' requestContents
             = Inr (True, write_file fs name body)"
    using assms(2) by (intro storeFile_opened) simp_all
  then have fs': "fs' = write_file fs name body"
    using assms(1) by simp
  have "length name < PATH_MAX"
    using opened by (simp add: ofstream_open_def)
  then have readable: "ifstream_open fs' name = Some body"
    by (simp add: fs' ifstream_open_def write_file_def)
  then have "isValidFilePath fs' name"
    using assms(3) by (simp add: isValidFilePath_iff)
  then show ?thesis
    unfolding codeCraftersGetFile_def files_route_name
    using fetchFileContents_readable [OF readable assms(4), of "''application/octet-stream''"]
    by simp
qed

lemma store_request_parsed:
  "getMethod store_request = Inr ''POST''"
  "getPath store_request = Inr (''files/'' @ ''test.txt'')"
  "parseFromThisToEnd store_request (CRLF @ CRLF) = Inr ''hello''"
  by (simp_all add: getMethod_def getPath_def parseBetween_def parseFromThisToEnd_def
      store_request_def find_str_def substr_def size_add_def to_int_def to_size_t_def npos_def
      CRLF_def CR_def LF_def)

lemma fetch_request_parsed:
  "getMethod fetch_request = Inr ''GET''"
  "getPath fetch_request = Inr (''files/'' @ ''test.txt'')"
  by (simp_all add: getMethod_def getPath_def parseBetween_def fetch_request_def
      find_str_def substr_def size_add_def to_int_def to_size_t_def npos_def CRLF_def CR_def
      LF_def)

text \<open>
  Claim C6, with the directory \<open>/tmp/d\<close> on a disk that holds no file yet: the POST of
  \<open>hello\<close> to \<open>/files/test.txt\<close> is answered 201 Created and writes the file
  \<open>/tmp/d/test.txt\<close>, as storeFile puts a slash between the directory and the name; the
  GET of \<open>/files/test.txt\<close> that follows is answered 404 Not Found, as
  codeCraftersGetFile puts none and looks for \<open>/tmp/dtest.txt\<close>. The claim says the
  GET returns the body \<open>hello\<close>.
\<close>

theorem round_trip_not_found:
  "handleClient empty_disk ''/tmp/d'' (fst (recv store_request buffer_size))
     (snd (recv store_request buffer_size))
   = Inr (Sent (HTTP201 @ CRLF), write_file empty_disk ''/tmp/d/test.txt'' ''hello'')
   \<and> files (write_file empty_disk ''/tmp/d/test.txt'' ''hello'') ''/tmp/d/test.txt''
       = Some ''hello''
   \<and> handleClient (write_file empty_disk ''/tmp/d/test.txt'' ''hello'') ''/tmp/d''
         (fst (recv fetch_request buffer_size)) (snd (recv fetch_request buffer_size))
       = Inr (Sent (HTTP404 @ CRLF), write_file empty_disk ''/tmp/d/test.txt'' ''hello'')"
proof -
  let ?disk = "write_file empty_disk ''/tmp/d/test.txt'' ''hello''"
  have "ofstream_open empty_disk ''/tmp/d/test.txt''"
    by (simp add: ofstream_open_def empty_disk_def PATH_MAX_def)
  then have "storeFile empty_disk (''files/'' @ ''test.txt'') ''/tmp/d'' store_request
             = Inr (True, ?disk)"
    using store_request_parsed(3) by (intro storeFile_opened) simp_all
  then have posted: "prepareResponse empty_disk ''/tmp/d'' '''' store_request
             = Inr (HTTP201 @ CRLF, ?disk)"
    using prepareResponse_store [OF store_request_parsed(1,2)] by simp
  have "ifstream_open ?disk (''/tmp/d'' @ ''test.txt'') = None"
    by (simp add: ifstream_open_def write_file_def empty_disk_def)
  then have "codeCraftersGetFile ?disk (''files/'' @ ''test.txt'') ''/tmp/d''
             = Inr (HTTP404 @ CRLF)"
    by (intro codeCraftersGetFile_invalid isValidFilePath_unreadable)
  then have fetched: "prepareResponse ?disk ''/tmp/d'' '''' fetch_request
             = Inr (HTTP404 @ CRLF, ?disk)"
    using prepareResponse_files [OF fetch_request_parsed, of ?disk "''/tmp/d''"] by simp
  have "NUL \<notin> set store_request" and "length store_request < buffer_size"
    and "NUL \<notin> set fetch_request" and "length fetch_request < buffer_size"
    by (simp_all add: store_request_def fetch_request_def buffer_size_def CRLF_def CR_def
        LF_def NUL_def)
  moreover have "files ?disk ''/tmp/d/test.txt'' = Some ''hello''"
    by (simp add: write_file_def)
  ultimately show ?thesis
    by (simp add: handleClient_received posted fetched)
qed

end
